theory Spec2Isabelle
  imports Main "HOL-Library.Multiset"
begin

section \<open>Strings and the detail-page pattern\<close>

text \<open>
  Python strings are modelled as \<^typ>\<open>string\<close>; a character stands for a code point
  below 256. On these code points the class \<^verbatim>\<open>\d\<close> of the regular-expression
  library is the ten ASCII digits, and the white space removed by \<^verbatim>\<open>str.strip()\<close>
  is the twelve characters listed in \<open>py_isspace\<close>.
\<close>

definition is_digit :: "char \<Rightarrow> bool" where
  "is_digit c = (c \<in> set ''0123456789'')"

definition newline :: char where
  "newline = CHR 0x0A"

definition py_isspace :: "char \<Rightarrow> bool" where
  "py_isspace c = (c \<in> set [CHR 0x09, CHR 0x0A, CHR 0x0B, CHR 0x0C, CHR 0x0D,
     CHR 0x1C, CHR 0x1D, CHR 0x1E, CHR 0x1F, CHR 0x20, CHR 0x85, CHR 0xA0])"

text \<open>\<^verbatim>\<open>s.strip()\<close>: white space is removed at both ends.\<close>

definition strip :: "string \<Rightarrow> string" where
  "strip s = rev (dropWhile py_isspace (rev (dropWhile py_isspace s)))"

text \<open>
  The pattern of \<^verbatim>\<open>crawl_page\<close> is a sequence of atoms: the anchors \<^verbatim>\<open>^\<close> and
  \<^verbatim>\<open>$\<close>, literal characters (\<^verbatim>\<open>\.\<close> is a literal full stop), and \<^verbatim>\<open>\d+\<close>.
  \<open>re_match_from\<close> is the backtracking matcher of \<^verbatim>\<open>re.match\<close> on such a sequence:
  the match starts at the beginning of the string and need not reach its end; the flag says
  whether the position is the beginning of the string. Without the MULTILINE flag,
  \<^verbatim>\<open>^\<close> matches at the beginning only, and \<^verbatim>\<open>$\<close> matches at the end of the
  string and also just before a line feed that is the last character of the string.
\<close>

datatype atom = Bol | Eol | Lit char | Digits

fun re_match_from :: "atom list \<Rightarrow> bool \<Rightarrow> string \<Rightarrow> bool" where
  "re_match_from [] at_start s = True"
| "re_match_from (Bol # as) at_start s = (at_start \<and> re_match_from as at_start s)"
| "re_match_from (Eol # as) at_start s =
     ((s = [] \<or> s = [newline]) \<and> re_match_from as at_start s)"
| "re_match_from (Lit c # as) at_start s =
     (case s of [] \<Rightarrow> False | x # xs \<Rightarrow> x = c \<and> re_match_from as False xs)"
| "re_match_from (Digits # as) at_start s =
     list_ex (\<lambda>k. re_match_from as False (drop k s))
       (rev [1 ..< Suc (length (takeWhile is_digit s))])"

definition re_match :: "atom list \<Rightarrow> string \<Rightarrow> bool" where
  "re_match pattern s = re_match_from pattern True s"

text \<open>\<^verbatim>\<open>r'^https://news\.ruc\.edu\.cn/\d+\.html$'\<close>\<close>

definition detail_pattern :: "atom list" where
  "detail_pattern =
     [Bol] @ map Lit ''https://news.ruc.edu.cn/'' @ [Digits] @ map Lit ''.html'' @ [Eol]"

text \<open>
  The address pattern in the words of the specification: the fixed host, a numeric
  identifier, the suffix \<^verbatim>\<open>.html\<close>, and nothing else.
\<close>

definition exact_detail_url :: "string \<Rightarrow> bool" where
  "exact_detail_url s =
     (let host = ''https://news.ruc.edu.cn/'';
          rest = drop (length host) s;
          ident = takeWhile is_digit rest
      in take (length host) s = host \<and> ident \<noteq> [] \<and> dropWhile is_digit rest = ''.html'')"

section \<open>The parsed document\<close>

text \<open>
  A parsed page is a tree of tags and strings. Of a tag the extractor reads its name, its
  \<^verbatim>\<open>class\<close> attribute (a list of tokens, empty when the attribute is absent), its
  \<^verbatim>\<open>href\<close> attribute (absent or a string) and its contents.
\<close>

datatype node =
    NavigableString string
  | Tag string "string list" "string option" "node list"

text \<open>The descendants of a node in document order, the order in which a search visits them.\<close>

fun descendants :: "node \<Rightarrow> node list" where
  "descendants (NavigableString s) = []"
| "descendants (Tag name cls href kids) = concat (map (\<lambda>k. k # descendants k) kids)"

text \<open>\<^verbatim>\<open>.text\<close>: the strings below a node, concatenated.\<close>

fun get_text :: "node \<Rightarrow> string" where
  "get_text (NavigableString s) = s"
| "get_text (Tag name cls href kids) = concat (map get_text kids)"

fun join_space :: "string list \<Rightarrow> string" where
  "join_space [] = []"
| "join_space [x] = x"
| "join_space (x # y # ys) = x @ '' '' @ join_space (y # ys)"

text \<open>
  A search by \<^verbatim>\<open>class_\<close> matches a tag when the wanted string is one of the class
  tokens, or is the whole attribute (the tokens joined by single spaces).
\<close>

definition class_matches :: "string \<Rightarrow> string list \<Rightarrow> bool" where
  "class_matches wanted cls = (wanted \<in> set cls \<or> join_space cls = wanted)"

fun matches :: "string \<Rightarrow> string option \<Rightarrow> node \<Rightarrow> bool" where
  "matches name wanted (NavigableString s) = False"
| "matches name None (Tag t cls href kids) = (t = name)"
| "matches name (Some w) (Tag t cls href kids) = (t = name \<and> class_matches w cls)"

definition find_all_bs :: "string \<Rightarrow> string option \<Rightarrow> node \<Rightarrow> node list" where
  "find_all_bs name wanted n = filter (matches name wanted) (descendants n)"

text \<open>\<^verbatim>\<open>find\<close> returns the first match in document order, or nothing.\<close>

definition find_bs :: "string \<Rightarrow> string option \<Rightarrow> node \<Rightarrow> node option" where
  "find_bs name wanted n =
     (case find_all_bs name wanted n of [] \<Rightarrow> None | x # xs \<Rightarrow> Some x)"

fun get_href :: "node \<Rightarrow> string option" where
  "get_href (NavigableString s) = None"
| "get_href (Tag t cls href kids) = href"

text \<open>\<^verbatim>\<open>find_all('a', href=True)\<close>: the anchors below a node that carry an address.\<close>

definition find_all_links :: "node \<Rightarrow> node list" where
  "find_all_links n = filter (\<lambda>d. matches ''a'' None d \<and> get_href d \<noteq> None) (descendants n)"

section \<open>The record extractor\<close>

datatype exn =
    Timeout
  | ConnectionError
  | HTTPError nat
  | KeyError
  | ValueError
  | IndexError
  | OtherException

text \<open>
  The exceptions of the HTTP library (time-out, connection failure, error status) are the
  subclasses of \<^verbatim>\<open>requests.RequestException\<close>.
\<close>

fun is_request_exception :: "exn \<Rightarrow> bool" where
  "is_request_exception Timeout = True"
| "is_request_exception ConnectionError = True"
| "is_request_exception (HTTPError status) = True"
| "is_request_exception e = False"

record article =
  url :: string
  title :: string
  publish_time :: string

text \<open>The title of a link: the text of the nested heading, stripped, or the empty string.\<close>

definition title_of :: "node \<Rightarrow> string" where
  "title_of link =
     (case find_bs ''h5'' (Some ''xs-padding xs-font-size'') link of
        Some h5 \<Rightarrow> strip (get_text h5)
      | None \<Rightarrow> [])"

text \<open>
  The publication time of a link: the stripped text of the visible paragraph; when that
  is empty (no such paragraph, or a blank one), the text of the first \<^verbatim>\<open>span\<close> and
  of the first \<^verbatim>\<open>p\<close> of the hidden time box, joined by a full stop.
\<close>

definition publish_time_of :: "node \<Rightarrow> string" where
  "publish_time_of link =
     (let publish_time =
            (case find_bs ''p'' (Some ''visible-xs'') link of
               Some visible_time \<Rightarrow> strip (get_text visible_time)
             | None \<Rightarrow> [])
      in if publish_time = [] then
           (case find_bs ''div'' (Some ''pp-box-time'') link of
              Some time_div \<Rightarrow>
                (case find_bs ''span'' None time_div of
                   Some span \<Rightarrow>
                     (case find_bs ''p'' None time_div of
                        Some p \<Rightarrow> get_text span @ ''.'' @ get_text p
                      | None \<Rightarrow> publish_time)
                 | None \<Rightarrow> publish_time)
            | None \<Rightarrow> publish_time)
         else publish_time)"

text \<open>
  The loop over \<^verbatim>\<open>all_links\<close>, with \<^verbatim>\<open>article_items\<close> as accumulator. Reading
  \<^verbatim>\<open>link['href']\<close> raises KeyError on a tag without that attribute.
\<close>

fun scan_links :: "node list \<Rightarrow> article list \<Rightarrow> exn + article list" where
  "scan_links [] article_items = Inr article_items"
| "scan_links (link # links) article_items =
     (case get_href link of
        None \<Rightarrow> Inl KeyError
      | Some href \<Rightarrow>
          if re_match detail_pattern href then
            scan_links links
              (article_items @
                 [\<lparr>url = href, title = title_of link, publish_time = publish_time_of link\<rparr>])
          else scan_links links article_items)"

definition extract_articles :: "node \<Rightarrow> exn + article list" where
  "extract_articles target_div = scan_links (find_all_links target_div) []"

section \<open>The page fetcher\<close>

record response =
  status_code :: nat
  resp_text :: string

text \<open>\<^verbatim>\<open>raise_for_status\<close> raises HTTPError on a client or server error status.\<close>

definition raise_for_status :: "response \<Rightarrow> bool" where
  "raise_for_status r = (400 \<le> status_code r \<and> status_code r < 600)"

text \<open>
  The library calls of \<^verbatim>\<open>crawl_page\<close> whose results the program does not determine:
  \<^item> \<open>str_format t page\<close> is \<^verbatim>\<open>t.format(page=page)\<close>, which may raise;
  \<^item> \<open>requests_get page u\<close> is the outcome of the GET request that the task of
    \<open>page\<close> sends to the address \<open>u\<close>: an exception, or a response with its status and
    its body decoded as UTF-8 (the page identifies the request, so that two requests to
    one address may be answered differently);
  \<^item> \<open>beautiful_soup t\<close> is the document parsed from the text \<open>t\<close>, or an exception.
\<close>

record env =
  str_format :: "string \<Rightarrow> int \<Rightarrow> exn + string"
  requests_get :: "int \<Rightarrow> string \<Rightarrow> exn + response"
  beautiful_soup :: "string \<Rightarrow> exn + node"

text \<open>The address of a list page; it is computed before the \<^verbatim>\<open>try\<close> block.\<close>

definition list_url_of :: "env \<Rightarrow> int \<Rightarrow> string \<Rightarrow> string \<Rightarrow> exn + string" where
  "list_url_of E page base_url_pattern first_page_url =
     (if page = 1 \<and> first_page_url \<noteq> [] then Inr first_page_url
      else str_format E base_url_pattern page)"

text \<open>The body of the \<^verbatim>\<open>try\<close> block: its value, or the exception that leaves it.\<close>

definition try_block :: "env \<Rightarrow> int \<Rightarrow> string \<Rightarrow> exn + article list" where
  "try_block E page list_url =
     (case requests_get E page list_url of
        Inl e \<Rightarrow> Inl e
      | Inr response \<Rightarrow>
          if raise_for_status response then Inl (HTTPError (status_code response))
          else
            (case beautiful_soup E (resp_text response) of
               Inl e \<Rightarrow> Inl e
             | Inr soup \<Rightarrow>
                 (case find_bs ''div'' (Some ''col-sm-9 col-xs-12 xs-padding'') soup of
                    Some target_div \<Rightarrow> extract_articles target_div
                  | None \<Rightarrow> Inr [])))"

type_synonym fetch_result = "string \<times> article list"

definition crawl_page :: "env \<Rightarrow> int \<Rightarrow> string \<Rightarrow> string \<Rightarrow> exn + fetch_result" where
  "crawl_page E page base_url_pattern first_page_url =
     (case list_url_of E page base_url_pattern first_page_url of
        Inl e \<Rightarrow> Inl e
      | Inr list_url \<Rightarrow>
          (case try_block E page list_url of
             Inr article_items \<Rightarrow> Inr (list_url, article_items)
           | Inl e \<Rightarrow>
               if is_request_exception e then Inr (list_url, [])
               else Inr (list_url, [])))"

section \<open>The dedup store\<close>

text \<open>
  A row of the table \<^verbatim>\<open>article_urls\<close> holds the four columns that the program
  supplies. The columns \<^verbatim>\<open>id\<close> and \<^verbatim>\<open>crawled_at\<close> are filled in by the storage
  engine (a sequence and the clock) and are never read by the program. A table is the list
  of its rows in insertion order. What is stored at \<^verbatim>\<open>dbPath\<close> before a run is a
  table, or \<open>None\<close> when the table does not exist yet. The storage engine is taken not
  to fail.
\<close>

record row = article +
  list_url :: string

type_synonym table = "row list"

text \<open>\<^verbatim>\<open>CREATE TABLE IF NOT EXISTS\<close>\<close>

definition ensure_schema :: "table option \<Rightarrow> table" where
  "ensure_schema stored = (case stored of None \<Rightarrow> [] | Some t \<Rightarrow> t)"

text \<open>
  \<^verbatim>\<open>INSERT OR IGNORE\<close> under the constraint \<^verbatim>\<open>url VARCHAR UNIQUE\<close>: a row whose
  address is already in the table is dropped.
\<close>

definition insert_or_ignore :: "table \<Rightarrow> row \<Rightarrow> table" where
  "insert_or_ignore t r = (if url r \<in> set (map url t) then t else t @ [r])"

text \<open>\<^verbatim>\<open>SELECT COUNT(*) FROM article_urls\<close>\<close>

definition count_rows :: "table \<Rightarrow> nat" where
  "count_rows t = length t"

text \<open>The values bound to the four parameters of the insert statement.\<close>

definition row_of :: "string \<Rightarrow> article \<Rightarrow> row" where
  "row_of lu item =
     \<lparr>url = url item, title = title item, publish_time = publish_time item, list_url = lu\<rparr>"

section \<open>The dispatcher and the coordinator\<close>

record config =
  dbPath :: string
  baseUrl :: string
  startPage :: int
  endPage :: int
  firstPageUrl :: string
  maxWorkers :: int

text \<open>
  What the loop over the completed futures does to the lock and to the store is recorded
  as a trace of events, each tagged with the page whose result is being handled. The
  connection that creates the table is closed before the worker pool starts, and the one
  that counts the rows is opened after the pool has shut down; they are not in the trace.
\<close>

datatype event =
    Acquire int
  | Connect int
  | Execute int string
  | Commit int
  | Close int
  | Release int

record state =
  db :: table
  total_urls :: nat
  events :: "event list"

definition emit :: "event \<Rightarrow> state \<Rightarrow> state" where
  "emit e st = st\<lparr>events := events st @ [e]\<rparr>"

text \<open>
  The loop over the items of one page, inside the lock and the connection. Every item is
  a dictionary built by \<open>crawl_page\<close> with its three keys, so the test
  \<^verbatim>\<open>isinstance(item, dict)\<close> succeeds and \<^verbatim>\<open>item.get\<close> returns the field.
\<close>

fun insert_items :: "int \<Rightarrow> string \<Rightarrow> article list \<Rightarrow> state \<Rightarrow> state" where
  "insert_items page lu [] st = st"
| "insert_items page lu (item # items) st =
     insert_items page lu items
       (emit (Execute page (url item))
          (st\<lparr>db := insert_or_ignore (db st) (row_of lu item)\<rparr>))"

definition write_batch :: "int \<Rightarrow> string \<Rightarrow> article list \<Rightarrow> state \<Rightarrow> state" where
  "write_batch page lu article_urls st =
     emit (Release page) (emit (Close page) (emit (Commit page)
       (insert_items page lu article_urls (emit (Connect page) (emit (Acquire page) st)))))"

text \<open>
  The body of the loop over the completed futures. \<^verbatim>\<open>future.result()\<close> raises again
  what the task raised; the handler around the body prints the exception and goes on to
  the next future.
\<close>

fun handle_result :: "state \<Rightarrow> int \<times> (exn + fetch_result) \<Rightarrow> state" where
  "handle_result st (page, Inl e) = st"
| "handle_result st (page, Inr (lu, article_urls)) =
     (let st' = (if article_urls \<noteq> [] then write_batch page lu article_urls st else st)
      in st'\<lparr>total_urls := total_urls st' + length article_urls\<rparr>)"

fun process_completed :: "(int \<times> (exn + fetch_result)) list \<Rightarrow> state \<Rightarrow> state" where
  "process_completed [] st = st"
| "process_completed (future # futures) st = process_completed futures (handle_result st future)"

text \<open>
  One task per page of \<^verbatim>\<open>range(start_page, end_page + 1)\<close>, in that order; a future
  is paired with its page and holds what \<open>crawl_page\<close> returned or raised.
\<close>

definition submit_all :: "env \<Rightarrow> config \<Rightarrow> (int \<times> (exn + fetch_result)) list" where
  "submit_all E cfg =
     map (\<lambda>page. (page, crawl_page E page (baseUrl cfg) (firstPageUrl cfg)))
       [startPage cfg .. endPage cfg]"

text \<open>
  \<^verbatim>\<open>as_completed\<close> yields every future once, in the order in which the tasks finish.
  That order is not determined by the program: it is given as a schedule, a permutation of
  the positions of the futures (sorted, it is the list of all positions).
\<close>

definition is_schedule :: "nat list \<Rightarrow> nat \<Rightarrow> bool" where
  "is_schedule sched n = (sort sched = [0 ..< n])"

definition as_completed :: "nat list \<Rightarrow> 'a list \<Rightarrow> 'a list" where
  "as_completed sched futures = map (\<lambda>i. futures ! i) sched"

record summary =
  pages_crawled :: int
  urls_extracted :: nat
  urls_in_db :: nat

record outcome =
  final_db :: table
  trace :: "event list"
  submitted :: "int list"
  printed :: "exn + summary"

text \<open>
  \<open>main\<close> after the configuration is loaded, on a schedule and on what is stored before
  the run. The constructor of the worker pool raises ValueError unless
  \<^verbatim>\<open>max_workers\<close> is positive; the table exists by then. The outcome holds the table
  after the run, the trace, the pages submitted in order, and the summary printed at the
  end (pages, records extracted, rows counted in the store) or the exception that ended
  the run. The elapsed time is not modelled.
\<close>

definition main :: "env \<Rightarrow> config \<Rightarrow> nat list \<Rightarrow> table option \<Rightarrow> outcome" where
  "main E cfg sched stored =
     (let t0 = ensure_schema stored;
          total_pages = endPage cfg - startPage cfg + 1
      in if maxWorkers cfg \<le> 0 then
           \<lparr>final_db = t0, trace = [], submitted = [], printed = Inl ValueError\<rparr>
         else
           (let futures = submit_all E cfg;
                st = process_completed (as_completed sched futures)
                       \<lparr>db = t0, total_urls = 0, events = []\<rparr>;
                total_in_db = count_rows (db st)
            in \<lparr>final_db = db st, trace = events st, submitted = map fst futures,
                printed = Inr \<lparr>pages_crawled = total_pages, urls_extracted = total_urls st,
                               urls_in_db = total_in_db\<rparr>\<rparr>))"

section \<open>Notions used in the properties\<close>

text \<open>A link qualifies when it carries an address that the pattern accepts.\<close>

definition qualifying :: "node \<Rightarrow> bool" where
  "qualifying link =
     (case get_href link of Some href \<Rightarrow> re_match detail_pattern href | None \<Rightarrow> False)"

definition article_of :: "node \<Rightarrow> article" where
  "article_of link =
     \<lparr>url = (case get_href link of Some href \<Rightarrow> href | None \<Rightarrow> []),
      title = title_of link, publish_time = publish_time_of link\<rparr>"

definition host :: string where
  "host = ''https://news.ruc.edu.cn/''"

text \<open>The two sources of a publication time, each on its own.\<close>

definition visible_time :: "node \<Rightarrow> string option" where
  "visible_time link =
     (case find_bs ''p'' (Some ''visible-xs'') link of
        Some p \<Rightarrow> Some (strip (get_text p))
      | None \<Rightarrow> None)"

definition hidden_time :: "node \<Rightarrow> string" where
  "hidden_time link =
     (case find_bs ''div'' (Some ''pp-box-time'') link of
        None \<Rightarrow> []
      | Some time_div \<Rightarrow>
          (case (find_bs ''span'' None time_div, find_bs ''p'' None time_div) of
             (Some span, Some p) \<Rightarrow> get_text span @ ''.'' @ get_text p
           | _ \<Rightarrow> []))"


text \<open>What a future contributes: its items, their addresses, the rows offered to the store.\<close>

fun items_of :: "int \<times> (exn + fetch_result) \<Rightarrow> article list" where
  "items_of (page, Inl e) = []"
| "items_of (page, Inr (lu, items)) = items"

definition urls_of :: "int \<times> (exn + fetch_result) \<Rightarrow> string list" where
  "urls_of f = map url (items_of f)"

fun rows_of :: "int \<times> (exn + fetch_result) \<Rightarrow> row list" where
  "rows_of (page, Inl e) = []"
| "rows_of (page, Inr (lu, items)) = map (row_of lu) items"

text \<open>The address of every record extracted over the page range, duplicates included.\<close>

definition extracted_urls :: "env \<Rightarrow> config \<Rightarrow> string list" where
  "extracted_urls E cfg = concat (map urls_of (submit_all E cfg))"

fun batch_events :: "int \<times> (exn + fetch_result) \<Rightarrow> event list" where
  "batch_events (page, Inl e) = []"
| "batch_events (page, Inr (lu, items)) =
     (if items = [] then []
      else [Acquire page, Connect page] @ map (\<lambda>item. Execute page (url item)) items
           @ [Commit page, Close page, Release page])"

fun event_page :: "event \<Rightarrow> int" where
  "event_page (Acquire p) = p"
| "event_page (Connect p) = p"
| "event_page (Execute p u) = p"
| "event_page (Commit p) = p"
| "event_page (Close p) = p"
| "event_page (Release p) = p"

text \<open>
  The discipline of a single writer, as an automaton over the trace: the lock is taken by
  one page, then the connection is opened, the inserts of that page are executed, the
  transaction is committed, the connection is closed and the lock is released. Any other
  event in any state, in particular an event of another page, is a violation.
\<close>

datatype writer = Idle | Locked int | Connected int | Committed int | Closed int

fun writer_step :: "writer \<Rightarrow> event \<Rightarrow> writer option" where
  "writer_step Idle (Acquire p) = Some (Locked p)"
| "writer_step (Locked p) (Connect q) = (if q = p then Some (Connected p) else None)"
| "writer_step (Connected p) (Execute q u) = (if q = p then Some (Connected p) else None)"
| "writer_step (Connected p) (Commit q) = (if q = p then Some (Committed p) else None)"
| "writer_step (Committed p) (Close q) = (if q = p then Some (Closed p) else None)"
| "writer_step (Closed p) (Release q) = (if q = p then Some Idle else None)"
| "writer_step w e = None"

fun serialized_from :: "writer \<Rightarrow> event list \<Rightarrow> writer option" where
  "serialized_from w [] = Some w"
| "serialized_from w (e # es) =
     (case writer_step w e of None \<Rightarrow> None | Some w' \<Rightarrow> serialized_from w' es)"

section \<open>Example pages and an example environment\<close>

fun str_nat :: "nat \<Rightarrow> string" where
  "str_nat n =
     (if n < 10 then [char_of (48 + n)] else str_nat (n div 10) @ [char_of (48 + n mod 10)])"

definition str_int :: "int \<Rightarrow> string" where
  "str_int i = (if i < 0 then ''-'' @ str_nat (nat (- i)) else str_nat (nat i))"

text \<open>
  An instance of \<open>str_format\<close> for templates whose replacement fields are all
  \<^verbatim>\<open>{page}\<close>: text is copied, the field is replaced by the page number in decimal, and
  a brace that does not belong to such a field raises ValueError.
\<close>

fun example_format :: "string \<Rightarrow> int \<Rightarrow> exn + string" where
  "example_format [] page = Inr []"
| "example_format (c # cs) page =
     (if c = CHR ''{'' then
        (if take 5 cs = ''page}'' then
           (case example_format (drop 5 cs) page of
              Inl e \<Rightarrow> Inl e
            | Inr s \<Rightarrow> Inr (str_int page @ s))
         else Inl ValueError)
      else if c = CHR ''}'' then Inl ValueError
      else (case example_format cs page of Inl e \<Rightarrow> Inl e | Inr s \<Rightarrow> Inr (c # s)))"

text \<open>A link with a heading and a visible time; one with neither; one with a blank visible
  time and a hidden time box; one to another host; one whose address ends in a line feed.\<close>

definition link_full :: node where
  "link_full = Tag ''a'' [] (Some ''https://news.ruc.edu.cn/101.html'')
     [Tag ''h5'' [''xs-padding'', ''xs-font-size''] None [NavigableString '' First ''],
      Tag ''p'' [''visible-xs''] None [NavigableString ''2024-05-01 '']]"

definition link_bare :: node where
  "link_bare = Tag ''a'' [] (Some ''https://news.ruc.edu.cn/102.html'') [NavigableString ''more'']"

definition link_hidden :: node where
  "link_hidden = Tag ''a'' [] (Some ''https://news.ruc.edu.cn/103.html'')
     [Tag ''p'' [''visible-xs''] None [NavigableString '' ''],
      Tag ''div'' [''pp-box-time''] None
        [Tag ''span'' [] None [NavigableString ''2024-05''],
         Tag ''p'' [] None [NavigableString ''12'']]]"

definition link_foreign :: node where
  "link_foreign = Tag ''a'' [] (Some ''https://example.org/7.html'') [NavigableString ''away'']"

definition link_newline :: node where
  "link_newline = Tag ''a'' [] (Some (''https://news.ruc.edu.cn/104.html'' @ [newline])) []"

definition content_div :: "node list \<Rightarrow> node" where
  "content_div links = Tag ''div'' [''col-sm-9'', ''col-xs-12'', ''xs-padding''] None links"

definition document :: "node list \<Rightarrow> node" where
  "document links = Tag ''[document]'' [] None [content_div links]"

text \<open>
  Page 1 holds two qualifying links and a foreign one, page 2 holds no qualifying link, the
  request for page 3 times out, page 4 is answered with status 404, the text of page 5
  makes the parser raise, and no other page can be reached.
\<close>

definition example_env :: env where
  "example_env = \<lparr>
     str_format = example_format,
     requests_get = (\<lambda>page u.
        if page = 1 then Inr \<lparr>status_code = 200, resp_text = ''one''\<rparr>
        else if page = 2 then Inr \<lparr>status_code = 200, resp_text = ''two''\<rparr>
        else if page = 3 then Inl Timeout
        else if page = 4 then Inr \<lparr>status_code = 404, resp_text = ''one''\<rparr>
        else if page = 5 then Inr \<lparr>status_code = 200, resp_text = ''broken''\<rparr>
        else Inl ConnectionError),
     beautiful_soup = (\<lambda>t.
        if t = ''one'' then Inr (document [link_full, link_foreign, link_bare])
        else if t = ''two'' then Inr (document [link_foreign])
        else if t = ''broken'' then Inl OtherException
        else Inr (Tag ''[document]'' [] None []))\<rparr>"

definition example_config :: config where
  "example_config =
     \<lparr>dbPath = ''urls.duckdb'', baseUrl = ''https://news.ruc.edu.cn/list_{page}.html'',
      startPage = 1, endPage = 3, firstPageUrl = ''https://news.ruc.edu.cn/list.html'',
      maxWorkers = 2\<rparr>"

text \<open>A store that already holds the first article of page 1, and one that holds another.\<close>

definition example_table :: table where
  "example_table =
     [\<lparr>url = ''https://news.ruc.edu.cn/101.html'', title = ''Old'',
       publish_time = ''2024-04-30'', list_url = ''https://news.ruc.edu.cn/list.html''\<rparr>]"

definition other_table :: table where
  "other_table =
     [\<lparr>url = ''https://news.ruc.edu.cn/7.html'', title = ''Earlier'',
       publish_time = ''2024-01-02'', list_url = ''https://news.ruc.edu.cn/list_9.html''\<rparr>]"

text \<open>The rows offered to the store in a run, in the order of completion.\<close>

definition completed_rows :: "env \<Rightarrow> config \<Rightarrow> nat list \<Rightarrow> row list" where
  "completed_rows E cfg sched = concat (map rows_of (as_completed sched (submit_all E cfg)))"

text \<open>The example configuration restricted to pages 2 and 3, and extended to page 5.\<close>

definition later_config :: config where
  "later_config = example_config\<lparr>startPage := 2\<rparr>"



section \<open>The extractor and the pattern\<close>

lemma scan_links_eq:
  "\<forall>l \<in> set links. get_href l \<noteq> None \<Longrightarrow>
     scan_links links acc = Inr (acc @ map article_of (filter qualifying links))"
  by (induction links arbitrary: acc) (auto simp: qualifying_def article_of_def)

lemma extract_articles_eq:
  "extract_articles target_div = Inr (map article_of (filter qualifying (find_all_links target_div)))"
  unfolding extract_articles_def
  by (subst scan_links_eq) (simp_all add: find_all_links_def)

lemma re_lits:
  "re_match_from (map Lit ls @ rest) b s =
     (if ls = [] then re_match_from rest b s
      else take (length ls) s = ls \<and> re_match_from rest False (drop (length ls) s))"
proof (induction ls arbitrary: b s)
  case Nil
  then show ?case by simp
next
  case (Cons c cs)
  show ?case
  proof (cases s)
    case Nil
    then show ?thesis by simp
  next
    case (Cons x xs)
    then show ?thesis using Cons.IH[of False xs] by auto
  qed
qed

lemma re_digits:
  "re_match_from (Digits # as) b s =
     (\<exists>k. 1 \<le> k \<and> k \<le> length (takeWhile is_digit s) \<and> re_match_from as False (drop k s))"
  by (auto simp: list_ex_iff)

lemma tail_match:
  "re_match_from (map Lit ''.html'' @ [Eol]) False t = (t = ''.html'' \<or> t = ''.html'' @ [newline])"
proof -
  define suffix where "suffix = ''.html''"
  have len: "length suffix = 5" and ne: "suffix \<noteq> []" by (simp_all add: suffix_def)
  have "re_match_from (map Lit suffix @ [Eol]) False t =
          (take (length suffix) t = suffix \<and> re_match_from [Eol] False (drop (length suffix) t))"
    using ne by (simp only: re_lits if_False)
  also have "\<dots> = (take 5 t = suffix \<and> (drop 5 t = [] \<or> drop 5 t = [newline]))"
    by (simp only: len re_match_from.simps simp_thms)
  also have "\<dots> = (t = suffix \<or> t = suffix @ [newline])"
  proof
    assume h: "take 5 t = suffix \<and> (drop 5 t = [] \<or> drop 5 t = [newline])"
    have "t = take 5 t @ drop 5 t" by simp
    then have "t = suffix @ drop 5 t" using h by simp
    with h show "t = suffix \<or> t = suffix @ [newline]" by auto
  next
    assume "t = suffix \<or> t = suffix @ [newline]"
    then show "take 5 t = suffix \<and> (drop 5 t = [] \<or> drop 5 t = [newline])"
      using len by auto
  qed
  finally show ?thesis by (simp only: suffix_def)
qed

lemma digits_then_tail:
  "re_match_from (Digits # map Lit ''.html'' @ [Eol]) b r =
     (takeWhile is_digit r \<noteq> [] \<and>
      (dropWhile is_digit r = ''.html'' \<or> dropWhile is_digit r = ''.html'' @ [newline]))"
proof -
  let ?n = "length (takeWhile is_digit r)"
  have nd: "\<not> is_digit CHR ''.''" by (simp add: is_digit_def)
  have drop_n: "drop ?n r = dropWhile is_digit r"
  proof -
    have "drop (length xs) (xs @ ys) = ys" for xs ys :: string by simp
    from this[of "takeWhile is_digit r" "dropWhile is_digit r"]
    show ?thesis by (simp only: takeWhile_dropWhile_id)
  qed
  have only: "k = ?n" if k: "k \<le> ?n" and m: "drop k r = ''.html'' \<or> drop k r = ''.html'' @ [newline]" for k
  proof (rule ccontr)
    assume "k \<noteq> ?n"
    with k have lt: "k < ?n" by simp
    have "is_digit (takeWhile is_digit r ! k)"
      by (rule set_takeWhileD[OF nth_mem[OF lt], THEN conjunct2])
    moreover have "takeWhile is_digit r ! k = r ! k"
      using lt by (rule takeWhile_nth)
    moreover have "k < length r" using lt length_takeWhile_le[of is_digit r] by simp
    then have "r ! k = hd (drop k r)" by (simp add: hd_drop_conv_nth)
    ultimately show False using m nd by auto
  qed
  show ?thesis
    unfolding re_digits tail_match
  proof
    assume "\<exists>k. 1 \<le> k \<and> k \<le> ?n \<and> (drop k r = ''.html'' \<or> drop k r = ''.html'' @ [newline])"
    then obtain k where k: "1 \<le> k" "k \<le> ?n" "drop k r = ''.html'' \<or> drop k r = ''.html'' @ [newline]"
      by blast
    with only have "k = ?n" by blast
    with k drop_n show "takeWhile is_digit r \<noteq> [] \<and>
      (dropWhile is_digit r = ''.html'' \<or> dropWhile is_digit r = ''.html'' @ [newline])"
      by auto
  next
    assume a: "takeWhile is_digit r \<noteq> [] \<and>
      (dropWhile is_digit r = ''.html'' \<or> dropWhile is_digit r = ''.html'' @ [newline])"
    then have "1 \<le> ?n" by (cases "takeWhile is_digit r") simp_all
    with a drop_n show "\<exists>k. 1 \<le> k \<and> k \<le> ?n \<and> (drop k r = ''.html'' \<or> drop k r = ''.html'' @ [newline])"
      by (intro exI[of _ ?n]) simp
  qed
qed

lemma re_match_detail:
  "re_match detail_pattern s =
     (take (length host) s = host \<and> takeWhile is_digit (drop (length host) s) \<noteq> [] \<and>
      (dropWhile is_digit (drop (length host) s) = ''.html'' \<or>
       dropWhile is_digit (drop (length host) s) = ''.html'' @ [newline]))"
proof -
  have ne: "host \<noteq> []" by (simp add: host_def)
  have "re_match detail_pattern s =
      re_match_from (map Lit host @ (Digits # map Lit ''.html'' @ [Eol])) True s"
    by (simp add: re_match_def detail_pattern_def host_def)
  also have "\<dots> = (take (length host) s = host \<and>
      re_match_from (Digits # map Lit ''.html'' @ [Eol]) False (drop (length host) s))"
    by (subst re_lits) (simp add: ne)
  finally show ?thesis by (simp only: digits_then_tail)
qed


lemma prefix_digits_tail:
  assumes "tl' = c # cs" "\<not> is_digit c"
  shows "(take (length h) s = h \<and> takeWhile is_digit (drop (length h) s) \<noteq> [] \<and>
          dropWhile is_digit (drop (length h) s) = tl')
         = (\<exists>ds. ds \<noteq> [] \<and> (\<forall>d \<in> set ds. is_digit d) \<and> s = h @ ds @ tl')"
proof
  assume a: "take (length h) s = h \<and> takeWhile is_digit (drop (length h) s) \<noteq> [] \<and>
          dropWhile is_digit (drop (length h) s) = tl'"
  let ?r = "drop (length h) s"
  have "s = take (length h) s @ ?r" by simp
  also have "?r = takeWhile is_digit ?r @ dropWhile is_digit ?r" by simp
  finally have "s = h @ takeWhile is_digit ?r @ tl'" using a by simp
  moreover have "\<forall>d \<in> set (takeWhile is_digit ?r). is_digit d"
    by (auto dest: set_takeWhileD)
  ultimately show "\<exists>ds. ds \<noteq> [] \<and> (\<forall>d \<in> set ds. is_digit d) \<and> s = h @ ds @ tl'"
    using a by blast
next
  assume "\<exists>ds. ds \<noteq> [] \<and> (\<forall>d \<in> set ds. is_digit d) \<and> s = h @ ds @ tl'"
  then obtain ds where ds: "ds \<noteq> []" "\<forall>d \<in> set ds. is_digit d" "s = h @ ds @ tl'" by blast
  have "takeWhile is_digit (ds @ tl') = ds" "dropWhile is_digit (ds @ tl') = tl'"
    using ds(2) assms by (simp_all add: takeWhile_append2 dropWhile_append2)
  with ds show "take (length h) s = h \<and> takeWhile is_digit (drop (length h) s) \<noteq> [] \<and>
          dropWhile is_digit (drop (length h) s) = tl'"
    by simp
qed

lemma exact_detail_url_iff:
  "exact_detail_url s = (\<exists>ds. ds \<noteq> [] \<and> (\<forall>d \<in> set ds. is_digit d) \<and> s = host @ ds @ ''.html'')"
proof -
  have nd: "\<not> is_digit CHR ''.''" by (simp add: is_digit_def)
  have "exact_detail_url s = (take (length host) s = host \<and>
      takeWhile is_digit (drop (length host) s) \<noteq> [] \<and>
      dropWhile is_digit (drop (length host) s) = ''.html'')"
    by (simp add: exact_detail_url_def host_def Let_def)
  also have "\<dots> = (\<exists>ds. ds \<noteq> [] \<and> (\<forall>d \<in> set ds. is_digit d) \<and> s = host @ ds @ ''.html'')"
    by (rule prefix_digits_tail[OF _ nd]) simp
  finally show ?thesis .
qed

lemma re_match_detail_iff:
  "re_match detail_pattern s =
     (exact_detail_url s \<or> (\<exists>s'. s = s' @ [newline] \<and> exact_detail_url s'))"
proof -
  have nd: "\<not> is_digit CHR ''.''" by (simp add: is_digit_def)
  let ?P = "\<lambda>t. take (length host) s = host \<and>
      takeWhile is_digit (drop (length host) s) \<noteq> [] \<and>
      dropWhile is_digit (drop (length host) s) = t"
  have "re_match detail_pattern s = (?P ''.html'' \<or> ?P (''.html'' @ [newline]))"
    by (simp only: re_match_detail) blast
  also have "?P ''.html'' = exact_detail_url s"
    by (simp add: exact_detail_url_def host_def Let_def)
  also have "?P (''.html'' @ [newline]) =
      (\<exists>ds. ds \<noteq> [] \<and> (\<forall>d \<in> set ds. is_digit d) \<and> s = host @ ds @ ''.html'' @ [newline])"
    by (rule prefix_digits_tail[OF _ nd]) simp
  also have "\<dots> = (\<exists>s'. s = s' @ [newline] \<and> exact_detail_url s')"
    unfolding exact_detail_url_iff
  proof
    assume "\<exists>ds. ds \<noteq> [] \<and> (\<forall>d \<in> set ds. is_digit d) \<and> s = host @ ds @ ''.html'' @ [newline]"
    then obtain ds where "ds \<noteq> []" "\<forall>d \<in> set ds. is_digit d" "s = (host @ ds @ ''.html'') @ [newline]"
      by auto
    then show "\<exists>s'. s = s' @ [newline] \<and>
      (\<exists>ds. ds \<noteq> [] \<and> (\<forall>d \<in> set ds. is_digit d) \<and> s' = host @ ds @ ''.html'')"
      by blast
  next
    assume "\<exists>s'. s = s' @ [newline] \<and>
      (\<exists>ds. ds \<noteq> [] \<and> (\<forall>d \<in> set ds. is_digit d) \<and> s' = host @ ds @ ''.html'')"
    then show "\<exists>ds. ds \<noteq> [] \<and> (\<forall>d \<in> set ds. is_digit d) \<and> s = host @ ds @ ''.html'' @ [newline]"
      by auto
  qed
  finally show ?thesis .
qed


lemma qualifying_member:
  assumes "link \<in> set (find_all_links target_div)" "get_href link = Some href"
    "re_match detail_pattern href"
  shows "article_of link \<in> set (map article_of (filter qualifying (find_all_links target_div)))"
  using assms by (simp add: qualifying_def)

lemma publish_time_of_eq:
  "publish_time_of link =
     (case visible_time link of
        Some t \<Rightarrow> if t \<noteq> [] then t else hidden_time link
      | None \<Rightarrow> hidden_time link)"
  by (simp add: publish_time_of_def visible_time_def hidden_time_def Let_def
      split: option.splits)

section \<open>The store and the loop over the completed futures\<close>

lemma url_row_of: "url (row_of lu item) = url item"
  by (simp add: row_of_def)

lemma insert_items_db:
  "db (insert_items page lu items st) = foldl insert_or_ignore (db st) (map (row_of lu) items)"
  by (induction items arbitrary: st) (simp_all add: emit_def)

lemma insert_items_total: "total_urls (insert_items page lu items st) = total_urls st"
  by (induction items arbitrary: st) (simp_all add: emit_def)

lemma insert_items_events:
  "events (insert_items page lu items st) = events st @ map (\<lambda>item. Execute page (url item)) items"
  by (induction items arbitrary: st) (simp_all add: emit_def)

lemma foldl_insert_urls:
  "set (map url (foldl insert_or_ignore t rs)) = set (map url t) \<union> set (map url rs)"
  by (induction rs arbitrary: t) (auto simp: insert_or_ignore_def)

lemma foldl_insert_noop:
  "set (map url rs) \<subseteq> set (map url t) \<Longrightarrow> foldl insert_or_ignore t rs = t"
  by (induction rs arbitrary: t) (auto simp: insert_or_ignore_def)

lemma foldl_insert_length:
  "length (foldl insert_or_ignore t rs) = length t + card (set (map url rs) - set (map url t))"
proof (induction rs arbitrary: t)
  case Nil
  then show ?case by simp
next
  case (Cons r rs)
  show ?case
  proof (cases "url r \<in> set (map url t)")
    case True
    then have "set (map url (r # rs)) - set (map url t) = set (map url rs) - set (map url t)"
      by auto
    with True Cons show ?thesis by (simp add: insert_or_ignore_def)
  next
    case False
    have fin: "finite (set (map url rs) - set (map url (t @ [r])))" by simp
    have "set (map url (r # rs)) - set (map url t)
          = insert (url r) (set (map url rs) - set (map url (t @ [r])))"
      using False by auto
    moreover have "url r \<notin> set (map url rs) - set (map url (t @ [r]))" by simp
    from card_insert_disjoint[OF fin this]
    have "card (insert (url r) (set (map url rs) - set (map url (t @ [r]))))
          = Suc (card (set (map url rs) - set (map url (t @ [r]))))" .
    ultimately have "card (set (map url (r # rs)) - set (map url t))
          = Suc (card (set (map url rs) - set (map url (t @ [r]))))"
      by (simp only:)
    with False Cons[of "t @ [r]"] show ?thesis by (simp add: insert_or_ignore_def)
  qed
qed


lemma handle_result_db:
  "db (handle_result st f) = foldl insert_or_ignore (db st) (rows_of f)"
  by (cases "(st, f)" rule: handle_result.cases) (simp_all add: write_batch_def emit_def insert_items_db Let_def)

lemma handle_result_total:
  "total_urls (handle_result st f) = total_urls st + length (rows_of f)"
  by (cases "(st, f)" rule: handle_result.cases) (simp_all add: write_batch_def emit_def insert_items_total Let_def)

lemma handle_result_events:
  "events (handle_result st f) = events st @ batch_events f"
  by (cases "(st, f)" rule: handle_result.cases) (simp_all add: write_batch_def emit_def insert_items_events Let_def)

lemma process_completed_db:
  "db (process_completed cs st) = foldl insert_or_ignore (db st) (concat (map rows_of cs))"
  by (induction cs arbitrary: st) (simp_all add: handle_result_db)

lemma process_completed_total:
  "total_urls (process_completed cs st) = total_urls st + length (concat (map rows_of cs))"
  by (induction cs arbitrary: st) (simp_all add: handle_result_total)

lemma process_completed_events:
  "events (process_completed cs st) = events st @ concat (map batch_events cs)"
  by (induction cs arbitrary: st) (simp_all add: handle_result_events)

lemma is_schedule_mset:
  assumes "is_schedule sched n"
  shows "mset sched = mset [0 ..< n]"
proof -
  have "mset sched = mset (sort sched)" by simp
  also have "sort sched = [0 ..< n]" using assms by (simp only: is_schedule_def)
  finally show ?thesis .
qed

lemma as_completed_mset:
  assumes "is_schedule sched (length futures)"
  shows "mset (as_completed sched futures) = mset futures"
proof -
  have "mset (map ((!) futures) sched) = image_mset ((!) futures) (mset sched)" by simp
  also have "\<dots> = image_mset ((!) futures) (mset [0 ..< length futures])"
    by (simp only: is_schedule_mset[OF assms])
  also have "\<dots> = mset (map ((!) futures) [0 ..< length futures])" by simp
  also have "\<dots> = mset futures" by (simp only: map_nth)
  finally show ?thesis by (simp add: as_completed_def)
qed

lemma mset_concat_map_cong:
  assumes "mset xs = mset ys"
  shows "mset (concat (map f xs)) = mset (concat (map f ys))"
proof -
  have "mset (concat (map f xs)) = sum_mset (image_mset (mset \<circ> f) (mset xs))" for xs :: "'a list"
    by (induction xs) simp_all
  then show ?thesis using assms by simp
qed


section \<open>The fetcher\<close>

lemma extract_articles_total: "\<exists>items. extract_articles target_div = Inr items"
  by (simp add: extract_articles_eq)




section \<open>The run as a whole\<close>

lemma urls_of_rows: "map url (rows_of f) = urls_of f"
  by (cases f rule: rows_of.cases) (simp_all add: urls_of_def url_row_of)

lemma map_url_rows: "map url (concat (map rows_of cs)) = concat (map urls_of cs)"
  by (induction cs) (simp_all add: urls_of_rows)

lemma completed_urls_mset:
  assumes "is_schedule sched (length fs)"
  shows "mset (concat (map urls_of (as_completed sched fs))) = mset (concat (map urls_of fs))"
  by (rule mset_concat_map_cong[OF as_completed_mset[OF assms]])

lemma completed_rows_urls:
  assumes "is_schedule sched (length (submit_all E cfg))"
  shows "mset (map url (completed_rows E cfg sched)) = mset (extracted_urls E cfg)"
  unfolding completed_rows_def extracted_urls_def map_url_rows
  by (rule completed_urls_mset[OF assms])

lemma as_completed_set:
  assumes "is_schedule sched (length fs)"
  shows "set (as_completed sched fs) = set fs"
  using as_completed_mset[OF assms] by (metis set_mset_mset)

lemma main_final_db:
  "final_db (main E cfg sched stored) =
     (if maxWorkers cfg \<le> 0 then ensure_schema stored
      else foldl insert_or_ignore (ensure_schema stored) (completed_rows E cfg sched))"
  by (simp add: main_def Let_def process_completed_db completed_rows_def)

lemma main_printed:
  "0 < maxWorkers cfg \<Longrightarrow>
   printed (main E cfg sched stored) =
     Inr \<lparr>pages_crawled = endPage cfg - startPage cfg + 1,
          urls_extracted = length (completed_rows E cfg sched),
          urls_in_db = count_rows (final_db (main E cfg sched stored))\<rparr>"
  by (simp add: main_def Let_def process_completed_db process_completed_total completed_rows_def)

lemma main_trace:
  "trace (main E cfg sched stored) =
     (if maxWorkers cfg \<le> 0 then []
      else concat (map batch_events (as_completed sched (submit_all E cfg))))"
  by (simp add: main_def Let_def process_completed_events)

lemma main_submitted:
  "0 < maxWorkers cfg \<Longrightarrow> submitted (main E cfg sched stored) = [startPage cfg .. endPage cfg]"
  by (simp add: main_def Let_def submit_all_def comp_def)

lemma submit_all_member:
  "((q, r) \<in> set (submit_all E cfg))
     = (startPage cfg \<le> q \<and> q \<le> endPage cfg
        \<and> r = crawl_page E q (baseUrl cfg) (firstPageUrl cfg))"
  by (auto simp: submit_all_def)

lemma main_loop:
  "0 < maxWorkers cfg \<Longrightarrow>
   main E cfg sched stored =
     (let st = process_completed (as_completed sched (submit_all E cfg))
                 \<lparr>db = ensure_schema stored, total_urls = 0, events = []\<rparr>
      in \<lparr>final_db = db st, trace = events st,
          submitted = [startPage cfg .. endPage cfg],
          printed = Inr \<lparr>pages_crawled = endPage cfg - startPage cfg + 1,
                         urls_extracted = total_urls st,
                         urls_in_db = count_rows (db st)\<rparr>\<rparr>)"
  by (simp add: main_def Let_def submit_all_def comp_def)

lemma card_diff_le_length:
  "card (set us - T) \<le> length us"
  by (meson List.finite_set card_length card_mono Diff_subset le_trans)

lemma card_diff_eq_length:
  "(card (set us - T) = length us) = (distinct us \<and> set us \<inter> T = {})"
proof
  assume h: "card (set us - T) = length us"
  have "card (set us - T) \<le> card (set us)" by (simp add: card_mono)
  moreover have "card (set us) \<le> length us" by (rule card_length)
  ultimately have c: "card (set us) = length us" and d: "card (set us - T) = card (set us)"
    using h by simp_all
  from c have "distinct us" by (rule card_distinct)
  moreover have "set us - T = set us"
    using d by (intro card_subset_eq) simp_all
  ultimately show "distinct us \<and> set us \<inter> T = {}" by blast
next
  assume h: "distinct us \<and> set us \<inter> T = {}"
  then have "set us - T = set us" by blast
  with h show "card (set us - T) = length us" by (simp add: distinct_card)
qed


lemma submit_all_unique:
  assumes "f \<in> set (submit_all E cfg)" "g \<in> set (submit_all E cfg)" "fst f = fst g"
  shows "f = g"
  using assms by (auto simp: submit_all_def)

lemma batch_event_page:
  "e \<in> set (batch_events f) \<Longrightarrow> event_page e = fst f \<and> items_of f \<noteq> []"
  by (cases f rule: batch_events.cases) (auto split: if_splits)

lemma count_list_upto:
  "count_list [i .. j] p = (if i \<le> p \<and> p \<le> j then 1 else 0)"
proof -
  have "count_list [i .. j] p = count (mset [i .. j]) p" by (simp only: count_mset)
  also have "\<dots> = (if p \<in> set [i .. j] then 1 else 0)"
    using distinct_upto[of i j] by (simp only: distinct_count_atmost_1)
  finally show ?thesis by simp
qed

lemma serialized_from_append:
  "serialized_from w (xs @ ys) =
     (case serialized_from w xs of None \<Rightarrow> None | Some w' \<Rightarrow> serialized_from w' ys)"
  by (induction xs arbitrary: w) (simp_all split: option.splits)

lemma serialized_executes:
  "serialized_from (Connected p) (map (\<lambda>item. Execute p (url item)) items @ rest)
     = serialized_from (Connected p) rest"
  by (induction items) simp_all

lemma serialized_batch: "serialized_from Idle (batch_events f) = Some Idle"
  by (cases f rule: batch_events.cases) (simp_all add: serialized_executes)

lemma serialized_batches: "serialized_from Idle (concat (map batch_events cs)) = Some Idle"
  by (induction cs) (simp_all add: serialized_from_append serialized_batch)

lemma serialized_prefix:
  assumes "serialized_from w es = Some w'"
  shows "serialized_from w (take n es) \<noteq> None"
proof
  assume "serialized_from w (take n es) = None"
  then have "serialized_from w (take n es @ drop n es) = None"
    by (simp only: serialized_from_append option.case)
  with assms show False by simp
qed

section \<open>The claims about the extractor\<close>

text \<open>
  Claim C5 (pattern gate). A link of the content container contributes a record exactly
  when its address matches the detail-page pattern: the fixed host, a numeric identifier,
  the suffix \<^verbatim>\<open>.html\<close>, and nothing else. By \<open>extract_articles_eq\<close> the records
  are those of the links that \<^verbatim>\<open>re.match\<close> accepts, and by \<open>re_match_detail_iff\<close>
  the pattern accepts the exact addresses and, in addition, an exact address followed by
  one line feed, because \<^verbatim>\<open>$\<close> also matches before a final line feed. The theorem
  evaluates the extractor on such a link: its address is not an exact detail-page address,
  yet it is accepted and the link contributes a record.
\<close>

theorem pattern_gate_trailing_newline:
  "re_match detail_pattern (''https://news.ruc.edu.cn/104.html'' @ [newline]) \<and>
   \<not> exact_detail_url (''https://news.ruc.edu.cn/104.html'' @ [newline]) \<and>
   extract_articles (content_div [link_foreign, link_newline]) =
     Inr [\<lparr>url = ''https://news.ruc.edu.cn/104.html'' @ [newline], title = [], publish_time = []\<rparr>]"
  by code_simp

text \<open>
  Claim C6 (degraded title). For a qualifying link without the nested heading
  \<^verbatim>\<open>h5\<close> of class \<^verbatim>\<open>xs-padding xs-font-size\<close>, the extractor does not raise, emits
  one record per qualifying link, and the record of that link has the empty title.
\<close>

theorem missing_title_degrades:
  assumes "link \<in> set (find_all_links target_div)"
    and "get_href link = Some href"
    and "re_match detail_pattern href"
    and "find_bs ''h5'' (Some ''xs-padding xs-font-size'') link = None"
  shows "\<exists>items. extract_articles target_div = Inr items \<and>
           length items = length (filter qualifying (find_all_links target_div)) \<and>
           \<lparr>url = href, title = [], publish_time = publish_time_of link\<rparr> \<in> set items"
proof -
  have "article_of link = \<lparr>url = href, title = [], publish_time = publish_time_of link\<rparr>"
    using assms(2,4) by (simp add: article_of_def title_of_def)
  with qualifying_member[OF assms(1-3)] show ?thesis
    by (simp add: extract_articles_eq)
qed

theorem missing_title_degrades_witness:
  "link_bare \<in> set (find_all_links (content_div [link_full, link_foreign, link_bare])) \<and>
   get_href link_bare = Some ''https://news.ruc.edu.cn/102.html'' \<and>
   re_match detail_pattern ''https://news.ruc.edu.cn/102.html'' \<and>
   find_bs ''h5'' (Some ''xs-padding xs-font-size'') link_bare = None \<and>
   (\<exists>items. extract_articles (content_div [link_full, link_foreign, link_bare]) = Inr items \<and>
      length items = length (filter qualifying (find_all_links (content_div [link_full, link_foreign, link_bare]))) \<and>
      \<lparr>url = ''https://news.ruc.edu.cn/102.html'', title = [], publish_time = publish_time_of link_bare\<rparr> \<in> set items)"
proof -
  have a: "link_bare \<in> set (find_all_links (content_div [link_full, link_foreign, link_bare]))"
    by code_simp
  have b: "get_href link_bare = Some ''https://news.ruc.edu.cn/102.html''" by code_simp
  have c: "re_match detail_pattern ''https://news.ruc.edu.cn/102.html''" by code_simp
  have d: "find_bs ''h5'' (Some ''xs-padding xs-font-size'') link_bare = None" by code_simp
  from missing_title_degrades[OF a b c d] a b c d show ?thesis by blast
qed

text \<open>
  Claim C7 (publication time), as amended. For a qualifying link the publication time is
  the stripped text of the visible time element when that element is present and its
  stripped text is not empty; otherwise (the element is absent or blank) it is the text of
  the \<^verbatim>\<open>span\<close> and the text of the \<^verbatim>\<open>p\<close> of the hidden time box joined by a full
  stop, when the box and both fragments are present; otherwise it is the empty string.
\<close>

theorem publish_time_fallback:
  assumes "link \<in> set (find_all_links target_div)"
    and "get_href link = Some href"
    and "re_match detail_pattern href"
  shows "\<exists>items. extract_articles target_div = Inr items \<and>
           \<lparr>url = href, title = title_of link,
            publish_time =
              (case visible_time link of
                 Some t \<Rightarrow> if t \<noteq> [] then t else hidden_time link
               | None \<Rightarrow> hidden_time link)\<rparr> \<in> set items"
proof -
  have "article_of link = \<lparr>url = href, title = title_of link,
            publish_time =
              (case visible_time link of
                 Some t \<Rightarrow> if t \<noteq> [] then t else hidden_time link
               | None \<Rightarrow> hidden_time link)\<rparr>"
    using assms(2) by (simp add: article_of_def publish_time_of_eq)
  with qualifying_member[OF assms] show ?thesis
    by (simp add: extract_articles_eq)
qed

text \<open>
  The claim as stated takes the time from the visible element whenever that element is
  present. Here the element is present and blank, and the time comes from the hidden box.
\<close>

theorem publish_time_fallback_counterexample:
  "find_bs ''p'' (Some ''visible-xs'') link_hidden
     = Some (Tag ''p'' [''visible-xs''] None [NavigableString '' '']) \<and>
   strip (get_text (Tag ''p'' [''visible-xs''] None [NavigableString '' ''])) = [] \<and>
   extract_articles (content_div [link_hidden]) =
     Inr [\<lparr>url = ''https://news.ruc.edu.cn/103.html'', title = [], publish_time = ''2024-05.12''\<rparr>]"
  by code_simp

theorem publish_time_fallback_witness:
  "link_hidden \<in> set (find_all_links (content_div [link_full, link_hidden])) \<and>
   get_href link_hidden = Some ''https://news.ruc.edu.cn/103.html'' \<and>
   re_match detail_pattern ''https://news.ruc.edu.cn/103.html'' \<and>
   visible_time link_hidden = Some [] \<and> hidden_time link_hidden = ''2024-05.12'' \<and>
   (\<exists>items. extract_articles (content_div [link_full, link_hidden]) = Inr items \<and>
      \<lparr>url = ''https://news.ruc.edu.cn/103.html'', title = [], publish_time = ''2024-05.12''\<rparr> \<in> set items)"
proof -
  have a: "link_hidden \<in> set (find_all_links (content_div [link_full, link_hidden]))"
    by code_simp
  have b: "get_href link_hidden = Some ''https://news.ruc.edu.cn/103.html''" by code_simp
  have c: "re_match detail_pattern ''https://news.ruc.edu.cn/103.html''" by code_simp
  have d: "visible_time link_hidden = Some []" by code_simp
  have e: "hidden_time link_hidden = ''2024-05.12''" by code_simp
  have f: "title_of link_hidden = []" by code_simp
  from publish_time_fallback[OF a b c] a b c d e f show ?thesis by simp
qed

section \<open>The claims about the fetcher\<close>

text \<open>
  Claim C8 (address of a list page). When the page number is 1 and a first-page address is
  configured (a non-empty string), the fetcher requests that address verbatim and returns
  it as the list address. In every other case the address is the template formatted with
  the page number; the fetcher requests it and returns it, and when the formatting raises,
  so does the fetcher.
\<close>

theorem page_url_resolution:
  "(page = 1 \<and> first \<noteq> [] \<longrightarrow>
      crawl_page E page base first =
        Inr (first, case try_block E page first of Inr items \<Rightarrow> items | Inl e \<Rightarrow> []))
   \<and> (\<not> (page = 1 \<and> first \<noteq> []) \<longrightarrow>
      crawl_page E page base first =
        (case str_format E base page of
           Inl e \<Rightarrow> Inl e
         | Inr lu \<Rightarrow>
             Inr (lu, case try_block E page lu of Inr items \<Rightarrow> items | Inl e \<Rightarrow> [])))"
  by (auto simp: crawl_page_def list_url_of_def split: sum.splits)

theorem page_url_resolution_witness:
  "crawl_page example_env 1 ''https://news.ruc.edu.cn/list_{page}.html'' ''https://news.ruc.edu.cn/list.html''
     = Inr (''https://news.ruc.edu.cn/list.html'',
            case try_block example_env 1 ''https://news.ruc.edu.cn/list.html'' of
              Inr items \<Rightarrow> items | Inl e \<Rightarrow> [])
   \<and> str_format example_env ''https://news.ruc.edu.cn/list_{page}.html'' 2
       = Inr ''https://news.ruc.edu.cn/list_2.html''
   \<and> crawl_page example_env 2 ''https://news.ruc.edu.cn/list_{page}.html'' ''https://news.ruc.edu.cn/list.html''
     = Inr (''https://news.ruc.edu.cn/list_2.html'',
            case try_block example_env 2 ''https://news.ruc.edu.cn/list_2.html'' of
              Inr items \<Rightarrow> items | Inl e \<Rightarrow> [])"
proof -
  have f: "str_format example_env ''https://news.ruc.edu.cn/list_{page}.html'' 2
       = Inr ''https://news.ruc.edu.cn/list_2.html''" by code_simp
  have n: "''https://news.ruc.edu.cn/list.html'' \<noteq> []" by simp
  from page_url_resolution[of 1 "''https://news.ruc.edu.cn/list.html''" example_env
      "''https://news.ruc.edu.cn/list_{page}.html''"]
    page_url_resolution[of 2 "''https://news.ruc.edu.cn/list.html''" example_env
      "''https://news.ruc.edu.cn/list_{page}.html''"] f n
  show ?thesis by simp
qed




section \<open>The claims about the run\<close>

text \<open>
  Claim C1 (idempotent re-ingestion). Run the crawl over a page range, and run it again
  over the same range against the resulting store, with the same fetched content and any
  two orders of completion: the second run leaves the table as the first run left it, so
  the number of distinct addresses is unchanged. An insert whose address is already in the
  table leaves the table as it is.
\<close>

theorem reingestion_idempotent:
  assumes "is_schedule sched1 (length (submit_all E cfg))"
    and "is_schedule sched2 (length (submit_all E cfg))"
  shows "final_db (main E cfg sched2 (Some (final_db (main E cfg sched1 stored))))
           = final_db (main E cfg sched1 stored)
       \<and> count_rows (final_db (main E cfg sched2 (Some (final_db (main E cfg sched1 stored)))))
           = count_rows (final_db (main E cfg sched1 stored))
       \<and> (url r \<in> set (map url t) \<longrightarrow> insert_or_ignore t r = t)"
proof -
  let ?t1 = "final_db (main E cfg sched1 stored)"
  have "final_db (main E cfg sched2 (Some ?t1)) = ?t1"
  proof (cases "maxWorkers cfg \<le> 0")
    case True
    then show ?thesis by (simp add: main_final_db ensure_schema_def)
  next
    case False
    have "set (map url (completed_rows E cfg sched2)) = set (extracted_urls E cfg)"
      using completed_rows_urls[OF assms(2)] by (metis set_mset_mset)
    also have "\<dots> = set (map url (completed_rows E cfg sched1))"
      using completed_rows_urls[OF assms(1)] by (metis set_mset_mset)
    also have "\<dots> \<subseteq> set (map url ?t1)"
      using False by (simp only: main_final_db foldl_insert_urls if_False) blast
    finally have "foldl insert_or_ignore ?t1 (completed_rows E cfg sched2) = ?t1"
      by (rule foldl_insert_noop)
    with False show ?thesis by (simp add: main_final_db[of E cfg sched2] ensure_schema_def)
  qed
  then show ?thesis by (simp add: insert_or_ignore_def)
qed

theorem reingestion_idempotent_witness:
  "is_schedule [2, 0, 1] (length (submit_all example_env example_config)) \<and>
   is_schedule [0, 1, 2] (length (submit_all example_env example_config)) \<and>
   count_rows (final_db (main example_env example_config [2, 0, 1] None)) = 2 \<and>
   final_db (main example_env example_config [0, 1, 2]
       (Some (final_db (main example_env example_config [2, 0, 1] None))))
     = final_db (main example_env example_config [2, 0, 1] None) \<and>
   count_rows (final_db (main example_env example_config [0, 1, 2]
       (Some (final_db (main example_env example_config [2, 0, 1] None))))) = 2"
proof -
  have a: "is_schedule [2, 0, 1] (length (submit_all example_env example_config))"
    by code_simp
  have b: "is_schedule [0, 1, 2] (length (submit_all example_env example_config))"
    by code_simp
  have c: "count_rows (final_db (main example_env example_config [2, 0, 1] None)) = 2"
    by code_simp
  from reingestion_idempotent[OF a b, where stored=None] a b c show ?thesis by simp
qed

text \<open>
  Claim C2 (completion counts), as amended. In every run the number of rows in the store
  before the run plus the reported total of records extracted (duplicates included) is at
  least the number of rows reported at the end, with equality exactly when no address
  appears twice across the page range and none of the extracted addresses was in the store
  before the run. For a run that starts on an empty store this is the claim as stated:
  extracted is at least stored, with equality exactly when no address appears twice.
\<close>

theorem count_invariant:
  assumes "0 < maxWorkers cfg"
    and "is_schedule sched (length (submit_all E cfg))"
  shows "\<exists>s. printed (main E cfg sched stored) = Inr s
       \<and> urls_extracted s = length (extracted_urls E cfg)
       \<and> urls_in_db s \<le> count_rows (ensure_schema stored) + urls_extracted s
       \<and> (urls_in_db s = count_rows (ensure_schema stored) + urls_extracted s
            \<longleftrightarrow> distinct (extracted_urls E cfg)
                \<and> set (extracted_urls E cfg) \<inter> set (map url (ensure_schema stored)) = {})
       \<and> (ensure_schema stored = [] \<longrightarrow>
            urls_in_db s \<le> urls_extracted s
          \<and> (urls_extracted s = urls_in_db s \<longleftrightarrow> distinct (extracted_urls E cfg)))"
proof -
  define R where "R = completed_rows E cfg sched"
  define us where "us = map url R"
  define T where "T = set (map url (ensure_schema stored))"
  define xs where "xs = extracted_urls E cfg"
  define n0 where "n0 = count_rows (ensure_schema stored)"
  let ?s = "\<lparr>pages_crawled = endPage cfg - startPage cfg + 1,
          urls_extracted = length R,
          urls_in_db = count_rows (final_db (main E cfg sched stored))\<rparr>"
  have m: "mset us = mset xs"
    unfolding us_def R_def xs_def by (rule completed_rows_urls[OF assms(2)])
  have len: "length R = length xs"
    using mset_eq_length[OF m] by (simp add: us_def)
  have lenus: "length us = length R" by (simp add: us_def)
  have dist: "distinct us = distinct xs"
    by (rule mset_eq_imp_distinct_iff[OF m])
  have sets: "set us = set xs"
    using m by (metis set_mset_mset)
  have cnt: "count_rows (final_db (main E cfg sched stored)) = n0 + card (set us - T)"
  proof -
    have "final_db (main E cfg sched stored) = foldl insert_or_ignore (ensure_schema stored) R"
      using assms(1) by (simp add: main_final_db R_def)
    then show ?thesis
      unfolding us_def T_def n0_def count_rows_def by (simp only: foldl_insert_length)
  qed
  have le: "card (set us - T) \<le> length R"
    using card_diff_le_length[of us T] by (simp only: lenus)
  have eq: "(card (set us - T) = length R) = (distinct xs \<and> set xs \<inter> T = {})"
    using card_diff_eq_length[of us T] by (simp only: lenus dist sets)
  have empty: "ensure_schema stored = [] \<Longrightarrow> n0 = 0 \<and> set xs \<inter> T = {}"
    by (simp add: n0_def T_def count_rows_def)
  have p: "printed (main E cfg sched stored) = Inr ?s"
    unfolding R_def by (rule main_printed[OF assms(1)])
  have "urls_extracted ?s = length xs" by (simp add: len)
  moreover have "urls_in_db ?s \<le> n0 + urls_extracted ?s"
    using le by (simp add: cnt)
  moreover have "(urls_in_db ?s = n0 + urls_extracted ?s) = (distinct xs \<and> set xs \<inter> T = {})"
    using eq by (simp add: cnt)
  moreover have "ensure_schema stored = [] \<longrightarrow>
            urls_in_db ?s \<le> urls_extracted ?s
          \<and> (urls_extracted ?s = urls_in_db ?s \<longleftrightarrow> distinct xs)"
    using le eq empty by (auto simp: cnt)
  ultimately show ?thesis using p unfolding xs_def T_def n0_def by blast
qed

text \<open>
  The claim as stated fails on a store that is not empty: here the store holds one row of
  an earlier run, pages 2 and 3 yield no record, and the summary reports 0 records
  extracted and 1 address stored.
\<close>

theorem count_invariant_counterexample:
  "0 < maxWorkers later_config \<and>
   is_schedule [1, 0] (length (submit_all example_env later_config)) \<and>
   extracted_urls example_env later_config = [] \<and>
   printed (main example_env later_config [1, 0] (Some other_table))
     = Inr \<lparr>pages_crawled = 2, urls_extracted = 0, urls_in_db = 1\<rparr>"
  by code_simp

theorem count_invariant_witness:
  "0 < maxWorkers example_config \<and>
   is_schedule [2, 0, 1] (length (submit_all example_env example_config)) \<and>
   printed (main example_env example_config [2, 0, 1] (Some example_table))
     = Inr \<lparr>pages_crawled = 3, urls_extracted = 2, urls_in_db = 2\<rparr> \<and>
   count_rows (ensure_schema (Some example_table)) = 1 \<and>
   distinct (extracted_urls example_env example_config) \<and>
   \<not> set (extracted_urls example_env example_config)
       \<inter> set (map url (ensure_schema (Some example_table))) = {}"
proof -
  have a: "0 < maxWorkers example_config" by code_simp
  have b: "is_schedule [2, 0, 1] (length (submit_all example_env example_config))"
    by code_simp
  have c: "printed (main example_env example_config [2, 0, 1] (Some example_table))
     = Inr \<lparr>pages_crawled = 3, urls_extracted = 2, urls_in_db = 2\<rparr>" by code_simp
  have d: "count_rows (ensure_schema (Some example_table)) = 1" by code_simp
  have e: "distinct (extracted_urls example_env example_config)" by code_simp
  from count_invariant[OF a b, where stored="Some example_table"] a b c d e
  show ?thesis by auto
qed

text \<open>
  Claim C3 (single writer). Only the loop over the completed futures touches the store
  while the workers run, and the workers run \<open>crawl_page\<close>, which does not touch it. The
  trace of that loop obeys the single-writer automaton, and so does each of its prefixes:
  at every moment at most one page is inside the write path, the lock is held from before
  the connection is opened until after it is closed, and the events of two pages are never
  interleaved.
\<close>

theorem single_writer:
  "serialized_from Idle (trace (main E cfg sched stored)) = Some Idle \<and>
   serialized_from Idle (take n (trace (main E cfg sched stored))) \<noteq> None"
proof -
  have "serialized_from Idle (trace (main E cfg sched stored)) = Some Idle"
    by (simp add: main_trace serialized_batches)
  then show ?thesis using serialized_prefix by blast
qed

theorem single_writer_witness:
  "trace (main example_env example_config [2, 0, 1] None) =
     [Acquire 1, Connect 1, Execute 1 ''https://news.ruc.edu.cn/101.html'',
      Execute 1 ''https://news.ruc.edu.cn/102.html'', Commit 1, Close 1, Release 1] \<and>
   serialized_from Idle (trace (main example_env example_config [2, 0, 1] None)) = Some Idle \<and>
   serialized_from Idle (take 3 (trace (main example_env example_config [2, 0, 1] None))) \<noteq> None"
proof -
  have "trace (main example_env example_config [2, 0, 1] None) =
     [Acquire 1, Connect 1, Execute 1 ''https://news.ruc.edu.cn/101.html'',
      Execute 1 ''https://news.ruc.edu.cn/102.html'', Commit 1, Close 1, Release 1]"
    by code_simp
  with single_writer[where E=example_env and cfg=example_config and sched="[2, 0, 1]"
      and stored=None and n=3]
  show ?thesis by blast
qed

text \<open>
  Claim C9 (one task per page). In a run whose worker pool could be created, the pages
  submitted are those of the inclusive range in ascending order, each page of the range
  once and no other page. The futures are the record of the attempts: there are as many as
  pages in the range, and a pair of a page and a result is among them exactly when the
  page is in the range and the result is what \<open>crawl_page\<close> on that page returned or
  raised. The loop handles every future once and the run is what that loop makes of these
  futures, so no page is fetched again. The summary reports \<open>endPage - startPage + 1\<close>
  pages, whatever the tasks returned or raised.
\<close>

theorem exactly_once_dispatch:
  assumes "0 < maxWorkers cfg"
  shows "submitted (main E cfg sched stored) = [startPage cfg .. endPage cfg]
       \<and> map fst (submit_all E cfg) = [startPage cfg .. endPage cfg]
       \<and> sorted_wrt (<) (submitted (main E cfg sched stored))
       \<and> count_list (submitted (main E cfg sched stored)) p
            = (if startPage cfg \<le> p \<and> p \<le> endPage cfg then 1 else 0)
       \<and> (\<exists>s. printed (main E cfg sched stored) = Inr s
              \<and> pages_crawled s = endPage cfg - startPage cfg + 1)
       \<and> (is_schedule sched (length (submit_all E cfg)) \<longrightarrow>
            mset (map fst (as_completed sched (submit_all E cfg)))
              = mset [startPage cfg .. endPage cfg])
       \<and> length (submit_all E cfg) = nat (endPage cfg - startPage cfg + 1)
       \<and> ((q, r) \<in> set (submit_all E cfg))
            = (startPage cfg \<le> q \<and> q \<le> endPage cfg
               \<and> r = crawl_page E q (baseUrl cfg) (firstPageUrl cfg))
       \<and> (is_schedule sched (length (submit_all E cfg)) \<longrightarrow>
            mset (as_completed sched (submit_all E cfg)) = mset (submit_all E cfg))
       \<and> main E cfg sched stored =
            (let st = process_completed (as_completed sched (submit_all E cfg))
                        \<lparr>db = ensure_schema stored, total_urls = 0, events = []\<rparr>
             in \<lparr>final_db = db st, trace = events st,
                 submitted = [startPage cfg .. endPage cfg],
                 printed = Inr \<lparr>pages_crawled = endPage cfg - startPage cfg + 1,
                                urls_extracted = total_urls st,
                                urls_in_db = count_rows (db st)\<rparr>\<rparr>)"
proof -
  have sub: "submitted (main E cfg sched stored) = [startPage cfg .. endPage cfg]"
    by (rule main_submitted[OF assms])
  have fs: "map fst (submit_all E cfg) = [startPage cfg .. endPage cfg]"
    by (simp add: submit_all_def comp_def)
  have len: "length (submit_all E cfg) = nat (endPage cfg - startPage cfg + 1)"
    by (simp add: submit_all_def)
  have once: "mset (as_completed sched (submit_all E cfg)) = mset (submit_all E cfg)"
    if "is_schedule sched (length (submit_all E cfg))"
    by (rule as_completed_mset[OF that])
  have pages: "mset (map fst (as_completed sched (submit_all E cfg)))
              = mset [startPage cfg .. endPage cfg]"
    if "is_schedule sched (length (submit_all E cfg))"
  proof -
    have "mset (map fst (as_completed sched (submit_all E cfg)))
        = image_mset fst (mset (as_completed sched (submit_all E cfg)))" by simp
    also have "\<dots> = image_mset fst (mset (submit_all E cfg))"
      by (simp only: once[OF that])
    also have "\<dots> = mset (map fst (submit_all E cfg))" by simp
    finally show ?thesis by (simp only: fs)
  qed
  have first: "submitted (main E cfg sched stored) = [startPage cfg .. endPage cfg]
       \<and> map fst (submit_all E cfg) = [startPage cfg .. endPage cfg]
       \<and> sorted_wrt (<) (submitted (main E cfg sched stored))
       \<and> count_list (submitted (main E cfg sched stored)) p
            = (if startPage cfg \<le> p \<and> p \<le> endPage cfg then 1 else 0)
       \<and> (\<exists>s. printed (main E cfg sched stored) = Inr s
              \<and> pages_crawled s = endPage cfg - startPage cfg + 1)"
    using main_printed[OF assms, where E=E and sched=sched and stored=stored]
    by (simp add: sub fs sorted_wrt_upto count_list_upto)
  from first pages len once submit_all_member[of q r E cfg]
    main_loop[OF assms, of E sched stored]
  show ?thesis by (intro conjI impI) blast+
qed

theorem exactly_once_dispatch_witness:
  "0 < maxWorkers example_config \<and>
   is_schedule [2, 0, 1] (length (submit_all example_env example_config)) \<and>
   submitted (main example_env example_config [2, 0, 1] None) = [1, 2, 3] \<and>
   count_list (submitted (main example_env example_config [2, 0, 1] None)) 3 = 1 \<and>
   crawl_page example_env 3 (baseUrl example_config) (firstPageUrl example_config)
     = Inr (''https://news.ruc.edu.cn/list_3.html'', []) \<and>
   (\<exists>s. printed (main example_env example_config [2, 0, 1] None) = Inr s \<and>
        pages_crawled s = 3) \<and>
   mset (map fst (as_completed [2, 0, 1] (submit_all example_env example_config)))
     = mset [1, 2, 3] \<and>
   length (submit_all example_env example_config) = 3 \<and>
   (3, Inr (''https://news.ruc.edu.cn/list_3.html'', []))
     \<in> set (submit_all example_env example_config) \<and>
   (3, Inl ValueError) \<notin> set (submit_all example_env example_config) \<and>
   mset (as_completed [2, 0, 1] (submit_all example_env example_config))
     = mset (submit_all example_env example_config)"
proof -
  have a: "0 < maxWorkers example_config" by code_simp
  have b: "is_schedule [2, 0, 1] (length (submit_all example_env example_config))"
    by code_simp
  have c: "[startPage example_config .. endPage example_config] = [1, 2, 3]" by code_simp
  have d: "endPage example_config - startPage example_config + 1 = 3" by code_simp
  have e: "startPage example_config \<le> 3 \<and> 3 \<le> endPage example_config" by code_simp
  have f: "crawl_page example_env 3 (baseUrl example_config) (firstPageUrl example_config)
     = Inr (''https://news.ruc.edu.cn/list_3.html'', [])" by code_simp
  note t = exactly_once_dispatch[OF a, where E=example_env and sched="[2, 0, 1]"
      and stored=None and p=3 and q=3]
  from t[where r="Inr (''https://news.ruc.edu.cn/list_3.html'', [])"]
    t[where r="Inl ValueError"] a b c d e f
  show ?thesis by simp
qed

text \<open>
  Claim C10 (a page without records). Handling a completed page whose list of records is
  empty leaves the state of the coordinator as it is: the table is not changed, no event
  is recorded (the lock is not taken and no connection is opened) and the running total
  grows by zero. In the trace of a whole run no event belongs to such a page, and the page
  is still among the pages submitted and counted in the summary.
\<close>

theorem empty_page_no_store_operation:
  "handle_result st (page, Inr (lu, [])) = st
   \<and> (0 < maxWorkers cfg \<and> is_schedule sched (length (submit_all E cfg))
        \<and> (page, Inr (lu, [])) \<in> set (submit_all E cfg) \<longrightarrow>
          (\<forall>e \<in> set (trace (main E cfg sched stored)). event_page e \<noteq> page)
        \<and> page \<in> set (submitted (main E cfg sched stored))
        \<and> (\<exists>s. printed (main E cfg sched stored) = Inr s
              \<and> pages_crawled s = endPage cfg - startPage cfg + 1))"
proof -
  have step: "handle_result st (page, Inr (lu, [])) = st" by simp
  have run: "(\<forall>e \<in> set (trace (main E cfg sched stored)). event_page e \<noteq> page)
        \<and> page \<in> set (submitted (main E cfg sched stored))
        \<and> (\<exists>s. printed (main E cfg sched stored) = Inr s
              \<and> pages_crawled s = endPage cfg - startPage cfg + 1)"
    if w: "0 < maxWorkers cfg" and s: "is_schedule sched (length (submit_all E cfg))"
      and m: "(page, Inr (lu, [])) \<in> set (submit_all E cfg)"
  proof -
    have "event_page e \<noteq> page" if e: "e \<in> set (trace (main E cfg sched stored))" for e
    proof
      assume p: "event_page e = page"
      from e w obtain f where f: "f \<in> set (as_completed sched (submit_all E cfg))"
        and ef: "e \<in> set (batch_events f)"
        by (auto simp: main_trace)
      from f have f': "f \<in> set (submit_all E cfg)" by (simp only: as_completed_set[OF s])
      from batch_event_page[OF ef] p have "fst f = page" and ne: "items_of f \<noteq> []" by simp_all
      with submit_all_unique[OF f' m] have "f = (page, Inr (lu, []))" by simp
      with ne show False by simp
    qed
    moreover have "page \<in> set (submitted (main E cfg sched stored))"
      using m by (simp only: main_submitted[OF w]) (auto simp: submit_all_def)
    moreover have "\<exists>s. printed (main E cfg sched stored) = Inr s
              \<and> pages_crawled s = endPage cfg - startPage cfg + 1"
      by (simp add: main_printed[OF w])
    ultimately show ?thesis by blast
  qed
  from step run show ?thesis by blast
qed

theorem empty_page_no_store_operation_witness:
  "0 < maxWorkers example_config \<and>
   is_schedule [2, 0, 1] (length (submit_all example_env example_config)) \<and>
   (2, Inr (''https://news.ruc.edu.cn/list_2.html'', [])) \<in> set (submit_all example_env example_config) \<and>
   handle_result \<lparr>db = example_table, total_urls = 2, events = []\<rparr>
       (2, Inr (''https://news.ruc.edu.cn/list_2.html'', []))
     = \<lparr>db = example_table, total_urls = 2, events = []\<rparr> \<and>
   event_page (Acquire 1) \<noteq> 2 \<and>
   2 \<in> set (submitted (main example_env example_config [2, 0, 1] None)) \<and>
   (\<exists>s. printed (main example_env example_config [2, 0, 1] None) = Inr s \<and> pages_crawled s = 3)"
proof -
  have a: "0 < maxWorkers example_config" by code_simp
  have b: "is_schedule [2, 0, 1] (length (submit_all example_env example_config))"
    by code_simp
  have c: "(2, Inr (''https://news.ruc.edu.cn/list_2.html'', []))
      \<in> set (submit_all example_env example_config)" by code_simp
  have d: "Acquire 1 \<in> set (trace (main example_env example_config [2, 0, 1] None))"
    by code_simp
  have e: "endPage example_config - startPage example_config + 1 = 3" by code_simp
  from empty_page_no_store_operation[where st="\<lparr>db = example_table, total_urls = 2, events = []\<rparr>"
      and page=2 and lu="''https://news.ruc.edu.cn/list_2.html''" and cfg=example_config
      and sched="[2, 0, 1]" and E=example_env and stored=None] a b c d e
  show ?thesis by auto
qed

end
